theory Spec2Isabelle
  imports Main "HOL-Library.AList" "HOL-Library.Sublist" "HOL-Library.Multiset"
begin

section \<open>The in-memory document store (MemStorage)\<close>

text \<open>
  A shallow embedding of the class \<^verbatim>\<open>MemStorage\<close> (server storage module) and of the row
  types of \<^verbatim>\<open>shared/schema.ts\<close>.

  \<^item> A JavaScript \<^verbatim>\<open>Map\<close> is an association list in insertion order: \<^verbatim>\<open>set\<close> on a
    key that is present replaces the value in place, on a new key it appends;
    \<^verbatim>\<open>values()\<close> and \<^verbatim>\<open>entries()\<close> enumerate in that order. The keys of a
    \<^verbatim>\<open>Map\<close> are unique, which is the predicate \<open>wf_store\<close> below.
  \<^item> \<^verbatim>\<open>randomUUID()\<close> and \<^verbatim>\<open>new Date()\<close> read the environment: every draw is an
    explicit argument of the operation that makes it. A \<^verbatim>\<open>Date\<close> is its
    \<^verbatim>\<open>getTime()\<close> value, an integer of milliseconds.
  \<^item> Every method is \<^verbatim>\<open>async\<close> but awaits only its own helpers, one after the other:
    a method is a function from the store to a result and the store afterwards.
  \<^item> An optional property of an input object is a \<open>field\<close>: \<open>Absent\<close> when the
    object has no such key, \<open>Present v\<close> when it has. A nullable value is an
    \<open>option\<close>, \<open>None\<close> being \<^verbatim>\<open>null\<close>. The input objects come out of the zod
    schemas (\<^verbatim>\<open>insertDocumentSchema.parse\<close>, \<^verbatim>\<open>.partial().parse\<close>), so a key that
    is present carries a value of the field's type.
\<close>

subsection \<open>JavaScript Map\<close>

type_synonym ('k, 'v) jsmap = "('k \<times> 'v) list"

definition Map_get :: "('k, 'v) jsmap \<Rightarrow> 'k \<Rightarrow> 'v option" where
  "Map_get m k = map_of m k"

definition Map_set :: "('k, 'v) jsmap \<Rightarrow> 'k \<Rightarrow> 'v \<Rightarrow> ('k, 'v) jsmap" where
  "Map_set m k v = AList.update k v m"

definition Map_delete :: "('k, 'v) jsmap \<Rightarrow> 'k \<Rightarrow> ('k, 'v) jsmap" where
  "Map_delete m k = AList.delete k m"

definition Map_values :: "('k, 'v) jsmap \<Rightarrow> 'v list" where
  "Map_values m = map snd m"

definition Map_entries :: "('k, 'v) jsmap \<Rightarrow> ('k \<times> 'v) list" where
  "Map_entries m = m"

definition Map_keys :: "('k, 'v) jsmap \<Rightarrow> 'k list" where
  "Map_keys m = map fst m"

subsection \<open>Rows (shared/schema.ts)\<close>

datatype 'a field = Absent | Present 'a

record User =
  u_id :: string
  u_email :: string
  u_password :: string
  u_name :: string
  u_role :: string
  u_createdAt :: int
  u_updatedAt :: int

record InsertUser =
  iu_email :: string
  iu_password :: string
  iu_name :: string
  iu_role :: "string field"

text \<open>
  \<^verbatim>\<open>Document\<close> and \<^verbatim>\<open>DocumentWithUser\<close> differ in the type of \<^verbatim>\<open>createdBy\<close> only
  (a user id, or the user row joined in).
\<close>

record 'c Document_of =
  d_id :: string
  d_title :: string
  d_content :: string
  d_summary :: "string option"
  d_tags :: "string list option"
  d_createdBy :: 'c
  d_createdAt :: int
  d_updatedAt :: int
  d_version :: int

type_synonym Document = "string Document_of"
type_synonym DocumentWithUser = "User Document_of"

record InsertDocument =
  i_title :: string
  i_content :: string
  i_summary :: "string option field"
  i_tags :: "string list option field"

text \<open>\<^verbatim>\<open>Partial<InsertDocument>\<close>: every key may be missing.\<close>

record PartialInsertDocument =
  p_title :: "string field"
  p_content :: "string field"
  p_summary :: "string option field"
  p_tags :: "string list option field"

record DocumentVersion =
  v_id :: string
  v_documentId :: string
  v_title :: string
  v_content :: string
  v_summary :: "string option"
  v_tags :: "string list option"
  v_version :: int
  v_createdBy :: string
  v_createdAt :: int
  v_changeDescription :: "string option"

record InsertDocumentVersion =
  iv_documentId :: string
  iv_title :: string
  iv_content :: string
  iv_summary :: "string option field"
  iv_tags :: "string list option field"
  iv_version :: int
  iv_createdBy :: string
  iv_changeDescription :: "string option field"

record Activity =
  a_id :: string
  a_type :: string
  a_documentId :: "string option"
  a_userId :: string
  a_description :: string
  a_createdAt :: int

record InsertActivity =
  ia_type :: string
  ia_documentId :: "string option field"
  ia_userId :: string
  ia_description :: string

record DocumentWithDetails = "User Document_of" +
  d_versions :: "DocumentVersion list"

text \<open>The element type of \<^verbatim>\<open>getRecentActivities\<close>: \<^verbatim>\<open>Activity & { user; document? }\<close>.\<close>

record ActivityWithUser = Activity +
  a_user :: User
  a_document :: "Document option"

record MemStorage =
  users :: "(string, User) jsmap"
  documents :: "(string, Document) jsmap"
  documentVersions :: "(string, DocumentVersion) jsmap"
  activities :: "(string, Activity) jsmap"

subsection \<open>JavaScript operators the store uses\<close>

text \<open>
  \<^verbatim>\<open>x || d\<close> yields \<open>d\<close> when \<open>x\<close> is falsy. A string is falsy when it is
  \<^verbatim>\<open>undefined\<close>, \<^verbatim>\<open>null\<close> or empty; an array when it is \<^verbatim>\<open>undefined\<close> or
  \<^verbatim>\<open>null\<close> (the empty array is truthy).
\<close>

fun orNull :: "string option field \<Rightarrow> string option" where
  "orNull Absent = None"
| "orNull (Present None) = None"
| "orNull (Present (Some s)) = (if s = [] then None else Some s)"

fun orEmptyArray :: "string list option field \<Rightarrow> string list option" where
  "orEmptyArray Absent = Some []"
| "orEmptyArray (Present None) = Some []"
| "orEmptyArray (Present (Some ts)) = Some ts"

fun orString :: "string field \<Rightarrow> string \<Rightarrow> string" where
  "orString Absent d = d"
| "orString (Present s) d = (if s = [] then d else s)"

text \<open>Object spread \<^verbatim>\<open>{...old, ...upd}\<close>, one property: a key of \<open>upd\<close> wins.\<close>

fun spread :: "'a \<Rightarrow> 'a field \<Rightarrow> 'a" where
  "spread old Absent = old"
| "spread old (Present v) = v"

text \<open>
  \<^verbatim>\<open>xs.sort((a, b) => key(b) - key(a))\<close>: the sort is stable, and the comparator is
  a total preorder, so the outcome is the stable sort by descending key.
\<close>

definition sortDesc :: "('a \<Rightarrow> int) \<Rightarrow> 'a list \<Rightarrow> 'a list" where
  "sortDesc key xs = sort_key (\<lambda>x. - key x) xs"


text \<open>
  \<^verbatim>\<open>String.prototype.toLowerCase\<close> is a builtin of the language: it folds every cased
  letter of Unicode and is not written in this repository. \<^verbatim>\<open>searchDocuments\<close>
  therefore takes it as a parameter \<open>toLowerCase\<close>, so what is proved of the search
  holds of the builtin, whatever it folds; of the builtin only
  \<^verbatim>\<open>"".toLowerCase() === ""\<close> is used. \<^verbatim>\<open>s.includes(q)\<close> tests for a contiguous run.
\<close>

fun str_includes :: "string \<Rightarrow> string \<Rightarrow> bool" where
  "str_includes [] q = (q = [])"
| "str_includes (c # cs) q = (prefix q (c # cs) \<or> str_includes cs q)"

subsection \<open>The store\<close>

definition MemStorage_new :: MemStorage where
  "MemStorage_new = \<lparr>users = [], documents = [], documentVersions = [], activities = []\<rparr>"

definition getUser :: "MemStorage \<Rightarrow> string \<Rightarrow> User option" where
  "getUser st uid = Map_get (users st) uid"

definition getUserByEmail :: "MemStorage \<Rightarrow> string \<Rightarrow> User option" where
  "getUserByEmail st email = find (\<lambda>user. u_email user = email) (Map_values (users st))"

definition createUser :: "MemStorage \<Rightarrow> InsertUser \<Rightarrow> string \<Rightarrow> int \<Rightarrow> User \<times> MemStorage" where
  "createUser st insertUser uid now =
     (let user = \<lparr>u_id = uid, u_email = iu_email insertUser, u_password = iu_password insertUser,
                  u_name = iu_name insertUser, u_role = orString (iu_role insertUser) ''user'',
                  u_createdAt = now, u_updatedAt = now\<rparr>
      in (user, st\<lparr>users := Map_set (users st) uid user\<rparr>))"

definition withUser :: "Document \<Rightarrow> User \<Rightarrow> DocumentWithUser" where
  "withUser doc user =
     \<lparr>d_id = d_id doc, d_title = d_title doc, d_content = d_content doc,
      d_summary = d_summary doc, d_tags = d_tags doc, d_createdBy = user,
      d_createdAt = d_createdAt doc, d_updatedAt = d_updatedAt doc, d_version = d_version doc\<rparr>"

definition createDocumentVersion ::
  "MemStorage \<Rightarrow> InsertDocumentVersion \<Rightarrow> string \<Rightarrow> int \<Rightarrow> DocumentVersion \<times> MemStorage" where
  "createDocumentVersion st insertVersion vid now =
     (let version = \<lparr>v_id = vid, v_documentId = iv_documentId insertVersion,
                     v_title = iv_title insertVersion, v_content = iv_content insertVersion,
                     v_summary = orNull (iv_summary insertVersion),
                     v_tags = orEmptyArray (iv_tags insertVersion),
                     v_version = iv_version insertVersion,
                     v_createdBy = iv_createdBy insertVersion, v_createdAt = now,
                     v_changeDescription = orNull (iv_changeDescription insertVersion)\<rparr>
      in (version, st\<lparr>documentVersions := Map_set (documentVersions st) vid version\<rparr>))"

definition createActivity ::
  "MemStorage \<Rightarrow> InsertActivity \<Rightarrow> string \<Rightarrow> int \<Rightarrow> Activity \<times> MemStorage" where
  "createActivity st insertActivity aid now =
     (let activity = \<lparr>a_id = aid, a_type = ia_type insertActivity,
                      a_documentId = orNull (ia_documentId insertActivity),
                      a_userId = ia_userId insertActivity,
                      a_description = ia_description insertActivity, a_createdAt = now\<rparr>
      in (activity, st\<lparr>activities := Map_set (activities st) aid activity\<rparr>))"

definition getDocumentVersions :: "MemStorage \<Rightarrow> string \<Rightarrow> DocumentVersion list" where
  "getDocumentVersions st documentId =
     sortDesc v_version
       (filter (\<lambda>version. v_documentId version = documentId) (Map_values (documentVersions st)))"

text \<open>The loop of \<^verbatim>\<open>getDocuments\<close>: a document whose author does not resolve is skipped.\<close>

fun joinDocuments :: "MemStorage \<Rightarrow> Document list \<Rightarrow> DocumentWithUser list" where
  "joinDocuments st [] = []"
| "joinDocuments st (doc # rest) =
     (case getUser st (d_createdBy doc) of
        Some user \<Rightarrow> withUser doc user # joinDocuments st rest
      | None \<Rightarrow> joinDocuments st rest)"

definition getDocuments :: "MemStorage \<Rightarrow> DocumentWithUser list" where
  "getDocuments st = sortDesc d_updatedAt (joinDocuments st (Map_values (documents st)))"

definition getDocument :: "MemStorage \<Rightarrow> string \<Rightarrow> DocumentWithDetails option" where
  "getDocument st docId =
     (case Map_get (documents st) docId of
        None \<Rightarrow> None
      | Some doc \<Rightarrow>
          (case getUser st (d_createdBy doc) of
             None \<Rightarrow> None
           | Some user \<Rightarrow>
               Some (Document_of.extend (withUser doc user)
                       (DocumentWithDetails.fields (getDocumentVersions st docId)))))"

definition quoted :: "string \<Rightarrow> string" where
  "quoted s = [CHR 0x22] @ s @ [CHR 0x22]"

definition createDocument ::
  "MemStorage \<Rightarrow> InsertDocument \<Rightarrow> string \<Rightarrow> string \<Rightarrow> int \<Rightarrow> string \<Rightarrow> int \<Rightarrow> string \<Rightarrow> int
     \<Rightarrow> Document \<times> MemStorage" where
  "createDocument st insertDocument createdBy docId now vid vnow aid anow =
     (let document = \<lparr>d_id = docId, d_title = i_title insertDocument,
                      d_content = i_content insertDocument,
                      d_summary = orNull (i_summary insertDocument),
                      d_tags = orEmptyArray (i_tags insertDocument),
                      d_createdBy = createdBy, d_createdAt = now, d_updatedAt = now,
                      d_version = 1\<rparr>;
          st1 = st\<lparr>documents := Map_set (documents st) docId document\<rparr>;
          (_, st2) = createDocumentVersion st1
             \<lparr>iv_documentId = docId, iv_title = d_title document,
              iv_content = d_content document, iv_summary = Present (d_summary document),
              iv_tags = Present (d_tags document), iv_version = 1, iv_createdBy = createdBy,
              iv_changeDescription = Present (Some ''Initial version'')\<rparr> vid vnow;
          (_, st3) = createActivity st2
             \<lparr>ia_type = ''created'', ia_documentId = Present (Some docId), ia_userId = createdBy,
              ia_description = ''Created document '' @ quoted (d_title document)\<rparr> aid anow
      in (document, st3))"

definition updateDocument ::
  "MemStorage \<Rightarrow> string \<Rightarrow> PartialInsertDocument \<Rightarrow> string \<Rightarrow> int \<Rightarrow> string \<Rightarrow> int \<Rightarrow> string \<Rightarrow> int
     \<Rightarrow> Document option \<times> MemStorage" where
  "updateDocument st docId updates updatedBy now vid vnow aid anow =
     (case Map_get (documents st) docId of
        None \<Rightarrow> (None, st)
      | Some doc \<Rightarrow>
          (let newVersion = d_version doc + 1;
               updatedDocument = doc\<lparr>d_title := spread (d_title doc) (p_title updates),
                                     d_content := spread (d_content doc) (p_content updates),
                                     d_summary := spread (d_summary doc) (p_summary updates),
                                     d_tags := spread (d_tags doc) (p_tags updates),
                                     d_updatedAt := now, d_version := newVersion\<rparr>;
               st1 = st\<lparr>documents := Map_set (documents st) docId updatedDocument\<rparr>;
               (_, st2) = createDocumentVersion st1
                  \<lparr>iv_documentId = docId, iv_title = d_title updatedDocument,
                   iv_content = d_content updatedDocument,
                   iv_summary = Present (d_summary updatedDocument),
                   iv_tags = Present (d_tags updatedDocument), iv_version = newVersion,
                   iv_createdBy = updatedBy,
                   iv_changeDescription = Present (Some ''Document updated'')\<rparr> vid vnow;
               (_, st3) = createActivity st2
                  \<lparr>ia_type = ''updated'', ia_documentId = Present (Some docId),
                   ia_userId = updatedBy,
                   ia_description = ''Updated document '' @ quoted (d_title updatedDocument)\<rparr>
                  aid anow
           in (Some updatedDocument, st3)))"

text \<open>
  The two loops of \<^verbatim>\<open>deleteDocument\<close> walk a snapshot of the entries
  (\<^verbatim>\<open>Array.from(map.entries())\<close>) and delete from the live map by key.
\<close>

fun deleteVersionsOf :: "string \<Rightarrow> (string \<times> DocumentVersion) list \<Rightarrow> (string, DocumentVersion) jsmap
     \<Rightarrow> (string, DocumentVersion) jsmap" where
  "deleteVersionsOf docId [] m = m"
| "deleteVersionsOf docId ((versionId, version) # rest) m =
     deleteVersionsOf docId rest
       (if v_documentId version = docId then Map_delete m versionId else m)"

fun deleteActivitiesOf :: "string \<Rightarrow> (string \<times> Activity) list \<Rightarrow> (string, Activity) jsmap
     \<Rightarrow> (string, Activity) jsmap" where
  "deleteActivitiesOf docId [] m = m"
| "deleteActivitiesOf docId ((activityId, activity) # rest) m =
     deleteActivitiesOf docId rest
       (if a_documentId activity = Some docId then Map_delete m activityId else m)"

definition deleteDocument :: "MemStorage \<Rightarrow> string \<Rightarrow> bool \<times> MemStorage" where
  "deleteDocument st docId =
     (case Map_get (documents st) docId of
        None \<Rightarrow> (False, st)
      | Some doc \<Rightarrow>
          (let st1 = st\<lparr>documentVersions :=
                         deleteVersionsOf docId (Map_entries (documentVersions st))
                           (documentVersions st)\<rparr>;
               st2 = st1\<lparr>activities :=
                          deleteActivitiesOf docId (Map_entries (activities st1)) (activities st1)\<rparr>
           in (True, st2\<lparr>documents := Map_delete (documents st2) docId\<rparr>)))"

definition searchDocuments ::
  "(string \<Rightarrow> string) \<Rightarrow> MemStorage \<Rightarrow> string \<Rightarrow> DocumentWithUser list" where
  "searchDocuments toLowerCase st query =
     (let allDocs = getDocuments st;
          lowerQuery = toLowerCase query
      in filter (\<lambda>doc.
           str_includes (toLowerCase (d_title doc)) lowerQuery \<or>
           str_includes (toLowerCase (d_content doc)) lowerQuery \<or>
           (case d_summary doc of
              None \<Rightarrow> False
            | Some s \<Rightarrow> s \<noteq> [] \<and> str_includes (toLowerCase s) lowerQuery) \<or>
           (case d_tags doc of
              None \<Rightarrow> False
            | Some ts \<Rightarrow> list_ex (\<lambda>tag. str_includes (toLowerCase tag) lowerQuery) ts)) allDocs)"




subsection \<open>The read operations in the words of the specification\<close>

text \<open>
  Literal search as the specification words it: the lower-cased query is a substring
  (\<open>sublist\<close>, a contiguous run) of the lower-cased title, content, summary when there
  is one, or of some tag.
\<close>

definition matches_literal :: "(string \<Rightarrow> string) \<Rightarrow> string \<Rightarrow> DocumentWithUser \<Rightarrow> bool" where
  "matches_literal toLowerCase query doc \<longleftrightarrow>
     sublist (toLowerCase query) (toLowerCase (d_title doc)) \<or>
     sublist (toLowerCase query) (toLowerCase (d_content doc)) \<or>
     (\<exists>s. d_summary doc = Some s \<and> sublist (toLowerCase query) (toLowerCase s)) \<or>
     (\<exists>ts tag. d_tags doc = Some ts \<and> tag \<in> set ts \<and>
        sublist (toLowerCase query) (toLowerCase tag))"


subsection \<open>Sequences of operations\<close>

text \<open>
  A call of one method of \<^verbatim>\<open>IStorage\<close> that writes, with its arguments and the values it
  draws from \<^verbatim>\<open>randomUUID()\<close> and \<^verbatim>\<open>new Date()\<close>. A history of the store is a list
  of them, run from left to right.
\<close>

datatype operation =
    CreateUser InsertUser string int
  | CreateDocument InsertDocument string string int string int string int
  | UpdateDocument string PartialInsertDocument string int string int string int
  | DeleteDocument string
  | CreateDocumentVersion InsertDocumentVersion string int
  | CreateActivity InsertActivity string int

fun apply_operation :: "MemStorage \<Rightarrow> operation \<Rightarrow> MemStorage" where
  "apply_operation st (CreateUser insertUser uid now) = snd (createUser st insertUser uid now)"
| "apply_operation st (CreateDocument ins createdBy docId now vid vnow aid anow) =
     snd (createDocument st ins createdBy docId now vid vnow aid anow)"
| "apply_operation st (UpdateDocument docId updates updatedBy now vid vnow aid anow) =
     snd (updateDocument st docId updates updatedBy now vid vnow aid anow)"
| "apply_operation st (DeleteDocument docId) = snd (deleteDocument st docId)"
| "apply_operation st (CreateDocumentVersion insertVersion vid now) =
     snd (createDocumentVersion st insertVersion vid now)"
| "apply_operation st (CreateActivity insertActivity aid now) =
     snd (createActivity st insertActivity aid now)"

fun run :: "MemStorage \<Rightarrow> operation list \<Rightarrow> MemStorage" where
  "run st [] = st"
| "run st (operation # rest) = run (apply_operation st operation) rest"

text \<open>
  The identifiers an operation draws are new: none is a key of the map it goes into, and
  a document id is not the empty string (a UUID has 36 characters).
\<close>

fun fresh_draws :: "MemStorage \<Rightarrow> operation \<Rightarrow> bool" where
  "fresh_draws st (CreateUser insertUser uid now) = (Map_get (users st) uid = None)"
| "fresh_draws st (CreateDocument ins createdBy docId now vid vnow aid anow) =
     (docId \<noteq> [] \<and> Map_get (documents st) docId = None \<and>
      Map_get (documentVersions st) vid = None \<and> Map_get (activities st) aid = None)"
| "fresh_draws st (UpdateDocument docId updates updatedBy now vid vnow aid anow) =
     (Map_get (documentVersions st) vid = None \<and> Map_get (activities st) aid = None)"
| "fresh_draws st (DeleteDocument docId) = True"
| "fresh_draws st (CreateDocumentVersion insertVersion vid now) =
     (Map_get (documentVersions st) vid = None)"
| "fresh_draws st (CreateActivity insertActivity aid now) = (Map_get (activities st) aid = None)"

fun fresh_run :: "MemStorage \<Rightarrow> operation list \<Rightarrow> bool" where
  "fresh_run st [] = True"
| "fresh_run st (operation # rest) =
     (fresh_draws st operation \<and> fresh_run (apply_operation st operation) rest)"

text \<open>
  A direct call of \<^verbatim>\<open>createActivity\<close> passes one of the two types that the calls in
  \<^verbatim>\<open>createDocument\<close> and \<^verbatim>\<open>updateDocument\<close> pass; every other operation qualifies.
\<close>

fun passes_audit_type :: "operation \<Rightarrow> bool" where
  "passes_audit_type (CreateActivity insertActivity aid now) =
     (ia_type insertActivity = ''created'' \<or> ia_type insertActivity = ''updated'')"
| "passes_audit_type _ = True"

text \<open>Histories made of \<^verbatim>\<open>createUser\<close>, \<^verbatim>\<open>createDocument\<close> and \<^verbatim>\<open>updateDocument\<close> only.\<close>

fun is_create_or_update :: "operation \<Rightarrow> bool" where
  "is_create_or_update (CreateUser insertUser uid now) = True"
| "is_create_or_update (CreateDocument ins createdBy docId now vid vnow aid anow) = True"
| "is_create_or_update (UpdateDocument docId updates updatedBy now vid vnow aid anow) = True"
| "is_create_or_update _ = False"

fun is_update_of :: "string \<Rightarrow> operation \<Rightarrow> bool" where
  "is_update_of d (UpdateDocument docId updates updatedBy now vid vnow aid anow) = (docId = d)"
| "is_update_of d _ = False"

text \<open>
  The version numbers of the DocumentVersion rows of one document, in the order the rows
  were stored; and the invariant of the version log: a document with current version
  \<open>N \<ge> 1\<close> has the rows numbered \<open>1..N\<close>, an id without a document has no row.
\<close>

definition version_numbers :: "MemStorage \<Rightarrow> string \<Rightarrow> int list" where
  "version_numbers st docId =
     map v_version (filter (\<lambda>version. v_documentId version = docId)
                      (Map_values (documentVersions st)))"

definition version_log_ok :: "MemStorage \<Rightarrow> bool" where
  "version_log_ok st \<longleftrightarrow>
     (\<forall>docId. Map_get (documents st) docId = None \<longrightarrow> version_numbers st docId = []) \<and>
     (\<forall>docId doc. Map_get (documents st) docId = Some doc \<longrightarrow>
        1 \<le> d_version doc \<and> version_numbers st docId = [1..d_version doc])"

text \<open>
  The rows of one document in the order they were stored, and what the newest of them
  records of the document: its version, title and content, and its summary and tags as
  \<^verbatim>\<open>createDocumentVersion\<close> stores them (after \<^verbatim>\<open>|| null\<close> and \<^verbatim>\<open>|| []\<close>).
\<close>

definition rows_of :: "MemStorage \<Rightarrow> string \<Rightarrow> DocumentVersion list" where
  "rows_of st docId =
     filter (\<lambda>version. v_documentId version = docId) (Map_values (documentVersions st))"

definition snapshot_of :: "Document \<Rightarrow> DocumentVersion \<Rightarrow> bool" where
  "snapshot_of doc version \<longleftrightarrow>
     v_version version = d_version doc \<and> v_title version = d_title doc \<and>
     v_content version = d_content doc \<and>
     v_summary version = orNull (Present (d_summary doc)) \<and>
     v_tags version = orEmptyArray (Present (d_tags doc))"

definition latest_row_ok :: "MemStorage \<Rightarrow> bool" where
  "latest_row_ok st \<longleftrightarrow>
     (\<forall>docId doc. Map_get (documents st) docId = Some doc \<longrightarrow>
        rows_of st docId \<noteq> [] \<and> snapshot_of doc (last (rows_of st docId)))"

text \<open>Every stored Activity has type "created" or "updated".\<close>

definition audit_types_ok :: "MemStorage \<Rightarrow> bool" where
  "audit_types_ok st =
     list_all (\<lambda>a. a_type a = ''created'' \<or> a_type a = ''updated'') (Map_values (activities st))"

subsection \<open>Well-formed stores and example stores\<close>

text \<open>The keys of each of the four maps are unique, as the keys of a \<^verbatim>\<open>Map\<close> are.\<close>

definition wf_store :: "MemStorage \<Rightarrow> bool" where
  "wf_store st \<longleftrightarrow>
     distinct (Map_keys (users st)) \<and> distinct (Map_keys (documents st)) \<and>
     distinct (Map_keys (documentVersions st)) \<and> distinct (Map_keys (activities st))"

definition ex_insert :: InsertDocument where
  "ex_insert = \<lparr>i_title = ''Onboarding'', i_content = ''Welcome...'', i_summary = Absent,
                 i_tags = Absent\<rparr>"

definition ex_doc1 :: Document where
  "ex_doc1 =
     fst (createDocument MemStorage_new ex_insert ''userA'' ''doc1'' 100 ''ver1'' 101 ''act1'' 102)"

definition ex_created :: MemStorage where
  "ex_created =
     snd (createDocument MemStorage_new ex_insert ''userA'' ''doc1'' 100 ''ver1'' 101 ''act1'' 102)"

definition ex_rename :: PartialInsertDocument where
  "ex_rename = \<lparr>p_title = Present ''Onboarding Guide'', p_content = Absent, p_summary = Absent,
                 p_tags = Absent\<rparr>"

definition ex_alice :: InsertUser where
  "ex_alice = \<lparr>iu_email = ''alice@example.org'', iu_password = ''secret'', iu_name = ''Alice'',
                iu_role = Absent\<rparr>"

definition ex_notes :: InsertDocument where
  "ex_notes = \<lparr>i_title = ''Release Notes'', i_content = ''Shipped on Monday'',
                i_summary = Present (Some ''What changed''), i_tags = Present (Some [''beta''])\<rparr>"

definition ex_history :: "operation list" where
  "ex_history =
     [CreateUser ex_alice ''userA'' 50,
      CreateDocument ex_insert ''userA'' ''doc1'' 100 ''ver1'' 101 ''act1'' 102,
      UpdateDocument ''doc1'' ex_rename ''userA'' 200 ''ver2'' 201 ''act2'' 202,
      CreateDocument ex_notes ''userA'' ''doc2'' 300 ''ver3'' 301 ''act3'' 302]"

definition ex_store :: MemStorage where
  "ex_store = run MemStorage_new ex_history"

definition ex_note_entry :: InsertActivity where
  "ex_note_entry = \<lparr>ia_type = ''updated'', ia_documentId = Present (Some ''doc1''),
                     ia_userId = ''userA'', ia_description = ''Touched the document''\<rparr>"

definition ex_audit_history :: "operation list" where
  "ex_audit_history =
     ex_history @ [DeleteDocument ''doc2'', CreateActivity ex_note_entry ''act4'' 500]"

text \<open>
  The builtin \<^verbatim>\<open>toLowerCase\<close> on ASCII text, where it maps \<open>A..Z\<close> to \<open>a..z\<close> and
  leaves every other character: the fold of the examples below, whose texts are ASCII.
\<close>

definition asciiToLowerChar :: "char \<Rightarrow> char" where
  "asciiToLowerChar c =
     (let n = (of_char c :: nat) in if 65 \<le> n \<and> n \<le> 90 then char_of (n + 32) else c)"

definition asciiToLowerCase :: "string \<Rightarrow> string" where
  "asciiToLowerCase s = map asciiToLowerChar s"

text \<open>
  An update that sets the summary to the empty string (what the editor form sends when
  the summary field is left empty), and one that sets the tags to \<^verbatim>\<open>null\<close>.
\<close>

definition ex_blank_summary :: PartialInsertDocument where
  "ex_blank_summary = \<lparr>p_title = Absent, p_content = Absent, p_summary = Present (Some []),
                        p_tags = Absent\<rparr>"

definition ex_null_tags :: PartialInsertDocument where
  "ex_null_tags = \<lparr>p_title = Absent, p_content = Absent, p_summary = Absent,
                    p_tags = Present None\<rparr>"

definition ex_blank_history :: "operation list" where
  "ex_blank_history =
     [CreateDocument ex_insert ''userA'' ''doc1'' 100 ''ver1'' 101 ''act1'' 102,
      UpdateDocument ''doc1'' ex_blank_summary ''userA'' 200 ''ver2'' 201 ''act2'' 202]"

definition ex_blanked :: MemStorage where
  "ex_blanked = run MemStorage_new ex_blank_history"

section \<open>Properties\<close>

subsection \<open>Facts about the Map operations\<close>

lemma Map_get_set: "Map_get (Map_set m k v) k' = (if k' = k then Some v else Map_get m k')"
  by (simp add: Map_get_def Map_set_def update_conv')

lemma Map_get_None_iff: "Map_get m k = None \<longleftrightarrow> k \<notin> set (Map_keys m)"
  by (simp add: Map_get_def Map_keys_def map_of_eq_None_iff)

lemma Map_set_fresh: "Map_get m k = None \<Longrightarrow> Map_set m k v = m @ [(k, v)]"
  unfolding Map_get_def Map_set_def
  by (induction m) (auto split: if_splits)

lemma Map_get_delete: "Map_get (Map_delete m k) k' = (if k' = k then None else Map_get m k')"
  by (simp add: Map_get_def Map_delete_def delete_conv')

lemma distinct_Map_set: "distinct (Map_keys m) \<Longrightarrow> distinct (Map_keys (Map_set m k v))"
  by (simp add: Map_keys_def Map_set_def distinct_update)

lemma distinct_Map_delete: "distinct (Map_keys m) \<Longrightarrow> distinct (Map_keys (Map_delete m k))"
  by (simp add: Map_keys_def Map_delete_def distinct_delete)

lemma Map_get_Some_iff: "distinct (Map_keys m) \<Longrightarrow> Map_get m k = Some v \<longleftrightarrow> (k, v) \<in> set m"
  by (simp add: Map_get_def Map_keys_def)

subsection \<open>What one call does to the store\<close>

lemma orNull_idem: "orNull (Present (orNull x)) = orNull x"
  by (cases x rule: orNull.cases) auto

lemma orEmptyArray_idem: "orEmptyArray (Present (orEmptyArray x)) = orEmptyArray x"
  by (cases x rule: orEmptyArray.cases) auto

text \<open>
  \<^verbatim>\<open>createDocument\<close> with its two helper calls inlined. The document was normalised by
  \<^verbatim>\<open>|| null\<close> and \<^verbatim>\<open>|| []\<close> before the snapshot is taken, so the second
  normalisation inside \<^verbatim>\<open>createDocumentVersion\<close> changes nothing.
\<close>

lemma createDocument_unfold:
  "createDocument st ins createdBy docId now vid vnow aid anow =
     (let document = \<lparr>d_id = docId, d_title = i_title ins, d_content = i_content ins,
                      d_summary = orNull (i_summary ins), d_tags = orEmptyArray (i_tags ins),
                      d_createdBy = createdBy, d_createdAt = now, d_updatedAt = now,
                      d_version = 1\<rparr>;
          version = \<lparr>v_id = vid, v_documentId = docId, v_title = i_title ins,
                     v_content = i_content ins, v_summary = orNull (i_summary ins),
                     v_tags = orEmptyArray (i_tags ins), v_version = 1,
                     v_createdBy = createdBy, v_createdAt = vnow,
                     v_changeDescription = Some ''Initial version''\<rparr>;
          activity = \<lparr>a_id = aid, a_type = ''created'',
                      a_documentId = (if docId = [] then None else Some docId),
                      a_userId = createdBy,
                      a_description = ''Created document '' @ quoted (i_title ins),
                      a_createdAt = anow\<rparr>
      in (document,
          st\<lparr>documents := Map_set (documents st) docId document,
             documentVersions := Map_set (documentVersions st) vid version,
             activities := Map_set (activities st) aid activity\<rparr>))"
  by (simp add: createDocument_def createDocumentVersion_def createActivity_def Let_def
      orNull_idem orEmptyArray_idem)

text \<open>
  \<^verbatim>\<open>updateDocument\<close> on a document that exists, helper calls inlined. Here the merged
  document is stored as it is, and only the snapshot goes through \<^verbatim>\<open>|| null\<close> and
  \<^verbatim>\<open>|| []\<close>.
\<close>

lemma updateDocument_unfold:
  "Map_get (documents st) docId = Some doc \<Longrightarrow>
   updateDocument st docId updates updatedBy now vid vnow aid anow =
     (let updatedDocument = doc\<lparr>d_title := spread (d_title doc) (p_title updates),
                                d_content := spread (d_content doc) (p_content updates),
                                d_summary := spread (d_summary doc) (p_summary updates),
                                d_tags := spread (d_tags doc) (p_tags updates),
                                d_updatedAt := now, d_version := d_version doc + 1\<rparr>;
          version = \<lparr>v_id = vid, v_documentId = docId, v_title = d_title updatedDocument,
                     v_content = d_content updatedDocument,
                     v_summary = orNull (Present (d_summary updatedDocument)),
                     v_tags = orEmptyArray (Present (d_tags updatedDocument)),
                     v_version = d_version doc + 1,
                     v_createdBy = updatedBy, v_createdAt = vnow,
                     v_changeDescription = Some ''Document updated''\<rparr>;
          activity = \<lparr>a_id = aid, a_type = ''updated'',
                      a_documentId = (if docId = [] then None else Some docId),
                      a_userId = updatedBy,
                      a_description = ''Updated document '' @ quoted (d_title updatedDocument),
                      a_createdAt = anow\<rparr>
      in (Some updatedDocument,
          st\<lparr>documents := Map_set (documents st) docId updatedDocument,
             documentVersions := Map_set (documentVersions st) vid version,
             activities := Map_set (activities st) aid activity\<rparr>))"
  by (simp add: updateDocument_def createDocumentVersion_def createActivity_def Let_def)

subsection \<open>updateDocument on a missing document\<close>

text \<open>
  C7. When no document is stored under the id, \<^verbatim>\<open>updateDocument\<close> returns
  \<^verbatim>\<open>undefined\<close> (here \<open>None\<close>) and the store afterwards is the store before: no
  document is modified, no DocumentVersion and no Activity row is added.
\<close>

theorem updateDocument_not_found:
  assumes "Map_get (documents st) docId = None"
  shows "updateDocument st docId updates updatedBy now vid vnow aid anow = (None, st)"
  using assms by (simp add: updateDocument_def)

theorem updateDocument_not_found_witness:
  "Map_get (documents ex_created) ''doc2'' = None \<and>
   updateDocument ex_created ''doc2'' ex_rename ''userA'' 200 ''ver2'' 201 ''act2'' 202
     = (None, ex_created)"
proof -
  have h: "Map_get (documents ex_created) ''doc2'' = None"
    by code_simp
  show ?thesis
    by (rule conjI [OF h updateDocument_not_found [OF h]])
qed

subsection \<open>createDocument\<close>




subsection \<open>updateDocument: ownership\<close>

text \<open>
  C9. \<^verbatim>\<open>updateDocument\<close> on a document that exists leaves its \<open>id\<close>,
  \<open>createdBy\<close> and \<open>createdAt\<close> as they were, whoever the editor is (the update
  object has no such keys), and the DocumentVersion row it appends has the editor, the
  \<open>updatedBy\<close> argument, as its \<open>createdBy\<close>.
\<close>

theorem updateDocument_keeps_ownership:
  assumes existing: "Map_get (documents st) docId = Some doc"
    and fresh_version: "Map_get (documentVersions st) vid = None"
  shows "case updateDocument st docId updates updatedBy now vid vnow aid anow of
           (result, st') \<Rightarrow>
             (\<exists>doc'. result = Some doc' \<and> Map_get (documents st') docId = Some doc' \<and>
                d_id doc' = d_id doc \<and> d_createdBy doc' = d_createdBy doc \<and>
                d_createdAt doc' = d_createdAt doc \<and>
                (\<exists>version. documentVersions st' = documentVersions st @ [(vid, version)] \<and>
                   v_documentId version = docId \<and> v_version version = d_version doc' \<and>
                   v_createdBy version = updatedBy))"
  using assms
  by (simp add: updateDocument_unfold Let_def Map_set_fresh Map_get_set)

theorem updateDocument_keeps_ownership_witness:
  "Map_get (documents ex_created) ''doc1'' = Some ex_doc1 \<and>
   Map_get (documentVersions ex_created) ''ver2'' = None \<and>
   (case updateDocument ex_created ''doc1'' ex_rename ''adminB'' 200 ''ver2'' 201 ''act2'' 202 of
      (result, st') \<Rightarrow>
        (\<exists>doc'. result = Some doc' \<and> Map_get (documents st') ''doc1'' = Some doc' \<and>
           d_id doc' = d_id ex_doc1 \<and> d_createdBy doc' = d_createdBy ex_doc1 \<and>
           d_createdAt doc' = d_createdAt ex_doc1 \<and>
           (\<exists>version. documentVersions st' = documentVersions ex_created @ [(''ver2'', version)] \<and>
              v_documentId version = ''doc1'' \<and> v_version version = d_version doc' \<and>
              v_createdBy version = ''adminB'')))"
proof -
  have h1: "Map_get (documents ex_created) ''doc1'' = Some ex_doc1"
    by code_simp
  have h2: "Map_get (documentVersions ex_created) ''ver2'' = None"
    by code_simp
  show ?thesis
    by (rule conjI [OF h1 conjI [OF h2 updateDocument_keeps_ownership [OF h1 h2]]])
qed


subsection \<open>deleteDocument\<close>

text \<open>
  Each loop of \<^verbatim>\<open>deleteDocument\<close> deletes the keys of the rows that refer to the
  document; as the keys of a map are unique, that removes those rows and no other.
\<close>

lemma Map_delete_filter: "Map_delete m k = filter (\<lambda>(k', v). k' \<noteq> k) m"
  by (auto simp: Map_delete_def AList.delete_eq intro: filter_cong)

lemma deleteVersionsOf_keys:
  "deleteVersionsOf docId es m =
     filter (\<lambda>(k, v). k \<notin> set (map fst (filter (\<lambda>e. v_documentId (snd e) = docId) es))) m"
proof (induction es arbitrary: m)
  case Nil
  then show ?case by simp
next
  case (Cons e es)
  obtain versionId version where e: "e = (versionId, version)" by (cases e)
  show ?case
    unfolding e
    by (auto simp: Cons.IH Map_delete_filter intro!: filter_cong)
qed

lemma deleteActivitiesOf_keys:
  "deleteActivitiesOf docId es m =
     filter (\<lambda>(k, a). k \<notin> set (map fst (filter (\<lambda>e. a_documentId (snd e) = Some docId) es))) m"
proof (induction es arbitrary: m)
  case Nil
  then show ?case by simp
next
  case (Cons e es)
  obtain activityId activity where e: "e = (activityId, activity)" by (cases e)
  show ?case
    unfolding e
    by (auto simp: Cons.IH Map_delete_filter intro!: filter_cong)
qed

lemma filter_keys_of_rows:
  assumes "distinct (Map_keys m)"
  shows "filter (\<lambda>(k, v). k \<notin> set (map fst (filter (\<lambda>e. P (snd e)) m))) m
           = filter (\<lambda>(k, v). \<not> P v) m"
proof (rule filter_cong [OF refl])
  fix x assume x: "x \<in> set m"
  obtain k v where kv: "x = (k, v)" by (cases x)
  have "k \<in> set (map fst (filter (\<lambda>e. P (snd e)) m)) \<longleftrightarrow> P v"
  proof
    assume "k \<in> set (map fst (filter (\<lambda>e. P (snd e)) m))"
    then obtain v' where "(k, v') \<in> set m" "P v'" by auto
    moreover have "v' = v"
      using assms x kv \<open>(k, v') \<in> set m\<close> by (auto simp: Map_keys_def dest: eq_key_imp_eq_value)
    ultimately show "P v" by simp
  next
    assume "P v"
    then show "k \<in> set (map fst (filter (\<lambda>e. P (snd e)) m))"
      using x kv by force
  qed
  then show "(case x of (k, v) \<Rightarrow> k \<notin> set (map fst (filter (\<lambda>e. P (snd e)) m)))
               = (case x of (k, v) \<Rightarrow> \<not> P v)"
    by (simp add: kv)
qed

lemma deleteVersionsOf_all:
  assumes "distinct (Map_keys m)"
  shows "deleteVersionsOf docId m m = filter (\<lambda>(k, v). v_documentId v \<noteq> docId) m"
  unfolding deleteVersionsOf_keys
  by (rule filter_keys_of_rows [OF assms, of "\<lambda>v. v_documentId v = docId"])

lemma deleteActivitiesOf_all:
  assumes "distinct (Map_keys m)"
  shows "deleteActivitiesOf docId m m = filter (\<lambda>(k, a). a_documentId a \<noteq> Some docId) m"
  unfolding deleteActivitiesOf_keys
  by (rule filter_keys_of_rows [OF assms, of "\<lambda>a. a_documentId a = Some docId"])

lemma deleteDocument_unfold:
  assumes "wf_store st" "Map_get (documents st) docId = Some doc"
  shows "deleteDocument st docId =
     (True, st\<lparr>documentVersions := filter (\<lambda>(k, v). v_documentId v \<noteq> docId) (documentVersions st),
               activities := filter (\<lambda>(k, a). a_documentId a \<noteq> Some docId) (activities st),
               documents := filter (\<lambda>(k, d). k \<noteq> docId) (documents st)\<rparr>)"
proof -
  have v: "deleteVersionsOf docId (documentVersions st) (documentVersions st)
             = filter (\<lambda>(k, v). v_documentId v \<noteq> docId) (documentVersions st)"
    using assms(1) by (simp add: wf_store_def deleteVersionsOf_all)
  have a: "deleteActivitiesOf docId (activities st) (activities st)
             = filter (\<lambda>(k, a). a_documentId a \<noteq> Some docId) (activities st)"
    using assms(1) by (simp add: wf_store_def deleteActivitiesOf_all)
  show ?thesis
    using assms(2)
    by (simp add: deleteDocument_def Let_def Map_entries_def v a Map_delete_filter)
qed

lemma sortDesc_Nil: "sortDesc f [] = []"
  by (simp add: sortDesc_def)

text \<open>Every operation keeps the keys of the four maps unique.\<close>

lemma set_Map_set: "set (Map_set m k v) \<subseteq> insert (k, v) (set m)"
  unfolding Map_set_def by (induction m) auto

lemma set_Map_values_set: "set (Map_values (Map_set m k v)) \<subseteq> insert v (set (Map_values m))"
  using set_Map_set [of m k v] by (fastforce simp: Map_values_def)

lemma wf_store_new: "wf_store MemStorage_new"
  by (simp add: wf_store_def MemStorage_new_def Map_keys_def)

lemma wf_store_apply: "wf_store st \<Longrightarrow> wf_store (apply_operation st operation)"
proof (cases operation)
  case (UpdateDocument docId updates updatedBy now vid vnow aid anow)
  assume wf: "wf_store st"
  show ?thesis
  proof (cases "Map_get (documents st) docId")
    case None
    then show ?thesis using wf by (simp add: UpdateDocument updateDocument_def)
  next
    case (Some doc)
    show ?thesis
      using wf
      by (simp add: UpdateDocument updateDocument_unfold [OF Some] Let_def wf_store_def
          distinct_Map_set)
  qed
next
  case (DeleteDocument docId)
  assume wf: "wf_store st"
  show ?thesis
  proof (cases "Map_get (documents st) docId")
    case None
    then show ?thesis using wf by (simp add: DeleteDocument deleteDocument_def)
  next
    case (Some doc)
    show ?thesis
      using wf
      by (simp add: DeleteDocument deleteDocument_unfold [OF wf Some] wf_store_def Map_keys_def
          distinct_map_filter)
  qed
qed (simp_all add: wf_store_def createUser_def createDocument_unfold createDocumentVersion_def
       createActivity_def Let_def distinct_Map_set)

lemma wf_store_run: "wf_store st \<Longrightarrow> wf_store (run st ops)"
  by (induction ops arbitrary: st) (simp_all add: wf_store_apply)

text \<open>
  C2. On a well-formed store, \<^verbatim>\<open>deleteDocument\<close> returns \<open>False\<close> and the store
  unchanged when no document is stored under the id. Otherwise it returns \<open>True\<close>; the
  store afterwards has the same users, the documents without the one under the id, the
  DocumentVersion rows whose \<open>documentId\<close> is not the id and the Activity rows whose
  \<open>documentId\<close> is not the id, all others in their order; then \<^verbatim>\<open>getDocument\<close>
  yields \<^verbatim>\<open>undefined\<close>, \<^verbatim>\<open>getDocumentVersions\<close> the empty list, and no Activity
  refers to the id.
\<close>

theorem deleteDocument_cascade:
  assumes "wf_store st"
  shows "(Map_get (documents st) docId = None \<longrightarrow> deleteDocument st docId = (False, st)) \<and>
         (Map_get (documents st) docId \<noteq> None \<longrightarrow>
            (case deleteDocument st docId of
               (ok, st') \<Rightarrow>
                 ok \<and> users st' = users st \<and>
                 documents st' = filter (\<lambda>(k, d). k \<noteq> docId) (documents st) \<and>
                 documentVersions st' =
                   filter (\<lambda>(k, v). v_documentId v \<noteq> docId) (documentVersions st) \<and>
                 activities st' =
                   filter (\<lambda>(k, a). a_documentId a \<noteq> Some docId) (activities st) \<and>
                 getDocument st' docId = None \<and>
                 getDocumentVersions st' docId = [] \<and>
                 filter (\<lambda>a. a_documentId a = Some docId) (Map_values (activities st')) = []))"
proof (intro conjI impI)
  assume "Map_get (documents st) docId = None"
  then show "deleteDocument st docId = (False, st)"
    by (simp add: deleteDocument_def)
next
  assume "Map_get (documents st) docId \<noteq> None"
  then obtain doc where doc: "Map_get (documents st) docId = Some doc"
    by auto
  have gone: "Map_get (filter (\<lambda>(k, d). k \<noteq> docId) (documents st)) docId = None"
    by (auto simp: Map_get_def map_of_eq_None_iff)
  have no_versions:
    "filter (\<lambda>version. v_documentId version = docId)
       (Map_values (filter (\<lambda>(k, v). v_documentId v \<noteq> docId) (documentVersions st))) = []"
    by (auto simp: Map_values_def filter_empty_conv)
  have no_activities:
    "filter (\<lambda>a. a_documentId a = Some docId)
       (Map_values (filter (\<lambda>(k, a). a_documentId a \<noteq> Some docId) (activities st))) = []"
    by (auto simp: Map_values_def filter_empty_conv)
  show "case deleteDocument st docId of
               (ok, st') \<Rightarrow>
                 ok \<and> users st' = users st \<and>
                 documents st' = filter (\<lambda>(k, d). k \<noteq> docId) (documents st) \<and>
                 documentVersions st' =
                   filter (\<lambda>(k, v). v_documentId v \<noteq> docId) (documentVersions st) \<and>
                 activities st' =
                   filter (\<lambda>(k, a). a_documentId a \<noteq> Some docId) (activities st) \<and>
                 getDocument st' docId = None \<and>
                 getDocumentVersions st' docId = [] \<and>
                 filter (\<lambda>a. a_documentId a = Some docId) (Map_values (activities st')) = []"
    by (simp add: deleteDocument_unfold [OF assms doc] getDocument_def gone
        getDocumentVersions_def no_versions no_activities sortDesc_Nil)
qed

theorem deleteDocument_cascade_witness:
  "wf_store ex_store \<and>
   Map_get (documents ex_store) ''doc9'' = None \<and>
   deleteDocument ex_store ''doc9'' = (False, ex_store) \<and>
   Map_get (documents ex_store) ''doc1'' \<noteq> None \<and>
   (case deleteDocument ex_store ''doc1'' of
      (ok, st') \<Rightarrow>
        ok \<and> users st' = users ex_store \<and>
        documents st' = filter (\<lambda>(k, d). k \<noteq> ''doc1'') (documents ex_store) \<and>
        documentVersions st' =
          filter (\<lambda>(k, v). v_documentId v \<noteq> ''doc1'') (documentVersions ex_store) \<and>
        activities st' =
          filter (\<lambda>(k, a). a_documentId a \<noteq> Some ''doc1'') (activities ex_store) \<and>
        getDocument st' ''doc1'' = None \<and>
        getDocumentVersions st' ''doc1'' = [] \<and>
        filter (\<lambda>a. a_documentId a = Some ''doc1'') (Map_values (activities st')) = [])"
proof -
  have wf: "wf_store ex_store"
    unfolding ex_store_def by (rule wf_store_run [OF wf_store_new])
  have absent: "Map_get (documents ex_store) ''doc9'' = None"
    by code_simp
  have present: "Map_get (documents ex_store) ''doc1'' \<noteq> None"
    by code_simp
  note refused = deleteDocument_cascade [OF wf, of "''doc9''", THEN conjunct1, THEN mp, OF absent]
  note removed = deleteDocument_cascade [OF wf, of "''doc1''", THEN conjunct2, THEN mp, OF present]
  show ?thesis
    by (rule conjI [OF wf conjI [OF absent conjI [OF refused conjI [OF present removed]]]])
qed

subsection \<open>The types of the stored activities\<close>

lemma list_all_Map_set:
  "list_all P (Map_values m) \<Longrightarrow> P v \<Longrightarrow> list_all P (Map_values (Map_set m k v))"
  using set_Map_values_set [of m k v] by (auto simp: list_all_iff)

lemma audit_types_ok_apply:
  assumes "audit_types_ok st" "passes_audit_type operation"
  shows "audit_types_ok (apply_operation st operation)"
proof (cases operation)
  case (CreateDocument ins createdBy docId now vid vnow aid anow)
  show ?thesis
    using assms(1)
    unfolding CreateDocument
    by (simp add: audit_types_ok_def createDocument_unfold Let_def list_all_Map_set)
next
  case (UpdateDocument docId updates updatedBy now vid vnow aid anow)
  show ?thesis
  proof (cases "Map_get (documents st) docId")
    case None
    then show ?thesis using assms(1) by (simp add: UpdateDocument updateDocument_def)
  next
    case (Some doc)
    show ?thesis
      using assms(1)
      unfolding UpdateDocument
      by (simp add: audit_types_ok_def updateDocument_unfold [OF Some] Let_def list_all_Map_set)
  qed
next
  case (DeleteDocument docId)
  show ?thesis
    using assms(1)
    by (cases "Map_get (documents st) docId")
       (auto simp: DeleteDocument deleteDocument_def Let_def audit_types_ok_def list_all_iff
          deleteActivitiesOf_keys Map_values_def Map_entries_def)
next
  case (CreateActivity insertActivity aid now)
  show ?thesis
    using assms
    unfolding CreateActivity
    by (simp add: audit_types_ok_def createActivity_def Let_def list_all_Map_set)
qed (use assms(1) in \<open>simp_all add: audit_types_ok_def createUser_def createDocumentVersion_def Let_def\<close>)

text \<open>
  C10. In every store reached from the empty store by any sequence of operations
  (\<^verbatim>\<open>createUser\<close>, \<^verbatim>\<open>createDocument\<close>, \<^verbatim>\<open>updateDocument\<close>, \<^verbatim>\<open>deleteDocument\<close>,
  \<^verbatim>\<open>createDocumentVersion\<close>, and \<^verbatim>\<open>createActivity\<close> called as the store calls it, with
  type "created" or "updated"), with any arguments and any UUID draws, every stored
  Activity has type "created" or "updated" and none has type "deleted":
  \<^verbatim>\<open>deleteDocument\<close> appends no Activity, so a deletion leaves no audit record.
\<close>

theorem no_deleted_activity:
  assumes "list_all passes_audit_type ops"
  shows "audit_types_ok (run MemStorage_new ops) \<and>
         filter (\<lambda>a. a_type a = ''deleted'') (Map_values (activities (run MemStorage_new ops))) = []"
proof -
  have "audit_types_ok st \<Longrightarrow> audit_types_ok (run st ops)" for st
    using assms by (induction ops arbitrary: st) (simp_all add: audit_types_ok_apply)
  moreover have "audit_types_ok MemStorage_new"
    by (simp add: audit_types_ok_def MemStorage_new_def Map_values_def)
  ultimately have ok: "audit_types_ok (run MemStorage_new ops)"
    by simp
  then show ?thesis
    by (auto simp: audit_types_ok_def list_all_iff filter_empty_conv)
qed

theorem no_deleted_activity_witness:
  "list_all passes_audit_type ex_audit_history \<and>
   audit_types_ok (run MemStorage_new ex_audit_history) \<and>
   filter (\<lambda>a. a_type a = ''deleted'')
     (Map_values (activities (run MemStorage_new ex_audit_history))) = [] \<and>
   map a_type (Map_values (activities (run MemStorage_new ex_audit_history)))
     = [''created'', ''updated'', ''updated'']"
proof -
  have h: "list_all passes_audit_type ex_audit_history"
    by code_simp
  have types: "map a_type (Map_values (activities (run MemStorage_new ex_audit_history)))
      = [''created'', ''updated'', ''updated'']"
    by code_simp
  note ok = no_deleted_activity [OF h]
  show ?thesis
    by (rule conjI [OF h conjI [OF ok [THEN conjunct1] conjI [OF ok [THEN conjunct2] types]]])
qed

subsection \<open>Sorting, newest first\<close>



subsection \<open>getDocuments\<close>




subsection \<open>searchDocuments\<close>

lemma str_includes_sublist: "str_includes s q \<longleftrightarrow> sublist q s"
  by (induction s) (simp_all add: sublist_Cons_right)

text \<open>
  The guards \<^verbatim>\<open>doc.summary && ...\<close> and \<^verbatim>\<open>doc.tags && ...\<close> skip a \<^verbatim>\<open>null\<close> and an
  empty summary and \<^verbatim>\<open>null\<close> tags. An empty summary contains the empty query only, which
  every title contains too, so the guard on it does not change the outcome.
\<close>

lemma search_predicate:
  assumes "toLowerCase [] = []"
  shows
  "(str_includes (toLowerCase (d_title doc)) q \<or>
    str_includes (toLowerCase (d_content doc)) q \<or>
    (case d_summary doc of None \<Rightarrow> False | Some s \<Rightarrow> s \<noteq> [] \<and> str_includes (toLowerCase s) q) \<or>
    (case d_tags doc of None \<Rightarrow> False
     | Some ts \<Rightarrow> list_ex (\<lambda>tag. str_includes (toLowerCase tag) q) ts))
   \<longleftrightarrow>
   (sublist q (toLowerCase (d_title doc)) \<or>
    sublist q (toLowerCase (d_content doc)) \<or>
    (\<exists>s. d_summary doc = Some s \<and> sublist q (toLowerCase s)) \<or>
    (\<exists>ts tag. d_tags doc = Some ts \<and> tag \<in> set ts \<and> sublist q (toLowerCase tag)))"
proof -
  have summary: "sublist q (toLowerCase (d_title doc)) \<or>
      (case d_summary doc of None \<Rightarrow> False | Some s \<Rightarrow> s \<noteq> [] \<and> sublist q (toLowerCase s))
    \<longleftrightarrow> sublist q (toLowerCase (d_title doc)) \<or>
      (\<exists>s. d_summary doc = Some s \<and> sublist q (toLowerCase s))"
    by (cases "d_summary doc") (auto simp: assms)
  have tags: "(case d_tags doc of None \<Rightarrow> False
     | Some ts \<Rightarrow> list_ex (\<lambda>tag. sublist q (toLowerCase tag)) ts)
    \<longleftrightarrow> (\<exists>ts tag. d_tags doc = Some ts \<and> tag \<in> set ts \<and> sublist q (toLowerCase tag))"
    by (cases "d_tags doc") (auto simp: list_ex_iff)
  show ?thesis
    unfolding str_includes_sublist tags using summary by blast
qed

text \<open>
  C5. For the builtin \<open>toLowerCase\<close>, of which only \<^verbatim>\<open>"".toLowerCase() === ""\<close> is
  assumed, and every query string: \<^verbatim>\<open>searchDocuments\<close> returns exactly the elements of
  \<^verbatim>\<open>getDocuments\<close> for which the lower-cased query is a substring of the lower-cased
  title, content, summary when there is one, or of some tag (\<open>matches_literal\<close>), in the
  order \<^verbatim>\<open>getDocuments\<close> has them. The match is case-insensitive: the query counts
  through its lower-casing only, so two queries with the same lower-casing give the same
  result, as the documents count through the lower-casing of their texts only.
\<close>

theorem searchDocuments_filter:
  assumes "toLowerCase [] = []"
  shows "searchDocuments toLowerCase st query
           = filter (matches_literal toLowerCase query) (getDocuments st) \<and>
         (toLowerCase query = toLowerCase query' \<longrightarrow>
            searchDocuments toLowerCase st query = searchDocuments toLowerCase st query')"
proof -
  have eq: "searchDocuments toLowerCase st q = filter (matches_literal toLowerCase q) (getDocuments st)"
    for q
    unfolding searchDocuments_def Let_def matches_literal_def
    by (rule filter_cong [OF refl]) (rule search_predicate [of toLowerCase, OF assms])
  have same: "matches_literal toLowerCase q = matches_literal toLowerCase q'"
    if "toLowerCase q = toLowerCase q'" for q q'
    using that by (auto simp: matches_literal_def fun_eq_iff)
  show ?thesis
    using same [of query query']
    by (simp add: eq)
qed

theorem searchDocuments_filter_witness:
  "asciiToLowerCase [] = [] \<and>
   asciiToLowerCase ''BETA'' = asciiToLowerCase ''beta'' \<and>
   searchDocuments asciiToLowerCase ex_store ''BETA''
     = filter (matches_literal asciiToLowerCase ''BETA'') (getDocuments ex_store) \<and>
   searchDocuments asciiToLowerCase ex_store ''BETA''
     = searchDocuments asciiToLowerCase ex_store ''beta'' \<and>
   map d_id (searchDocuments asciiToLowerCase ex_store ''BETA'') = [''doc2''] \<and>
   map d_id (searchDocuments asciiToLowerCase ex_store ''release'') = [''doc2''] \<and>
   searchDocuments asciiToLowerCase ex_store ''gamma'' = []"
proof -
  have empty: "asciiToLowerCase [] = []"
    by (simp add: asciiToLowerCase_def)
  have variant: "asciiToLowerCase ''BETA'' = asciiToLowerCase ''beta''"
    by code_simp
  note search = searchDocuments_filter [of asciiToLowerCase ex_store "''BETA''" "''beta''",
      OF empty]
  note filtered = search [THEN conjunct1]
  note same = search [THEN conjunct2, THEN mp, OF variant]
  have found: "map d_id (searchDocuments asciiToLowerCase ex_store ''BETA'') = [''doc2''] \<and>
      map d_id (searchDocuments asciiToLowerCase ex_store ''release'') = [''doc2''] \<and>
      searchDocuments asciiToLowerCase ex_store ''gamma'' = []"
    by code_simp
  show ?thesis
    by (rule conjI [OF empty conjI [OF variant conjI [OF filtered conjI [OF same found]]]])
qed

subsection \<open>getRecentActivities\<close>






subsection \<open>The version log\<close>

text \<open>
  The part of C1 that holds. Along every history of \<^verbatim>\<open>createUser\<close>,
  \<^verbatim>\<open>createDocument\<close> and \<^verbatim>\<open>updateDocument\<close> calls whose UUID draws are new, the
  version log stays in step with the version counter.
\<close>

lemma version_log_ok_new: "version_log_ok MemStorage_new"
  by (simp add: version_log_ok_def MemStorage_new_def Map_get_def version_numbers_def
      Map_values_def)

lemma version_numbers_users [simp]:
  "version_numbers (st\<lparr>users := u\<rparr>) docId = version_numbers st docId"
  by (simp add: version_numbers_def)

lemma upto_snoc: "0 \<le> n \<Longrightarrow> [1..n] @ [n + 1] = [1..n + 1]"
  by (simp add: upto_rec2)

lemma version_log_ok_create:
  assumes ok: "version_log_ok st"
    and fresh: "fresh_draws st (CreateDocument ins createdBy docId now vid vnow aid anow)"
  shows "version_log_ok (snd (createDocument st ins createdBy docId now vid vnow aid anow))"
proof -
  let ?st' = "snd (createDocument st ins createdBy docId now vid vnow aid anow)"
  have old: "version_numbers st docId = []"
    using ok fresh by (simp add: version_log_ok_def)
  have rows: "version_numbers ?st' d = version_numbers st d @ (if d = docId then [1] else [])" for d
    using fresh
    by (auto simp: version_numbers_def Map_values_def createDocument_unfold Let_def Map_set_fresh)
  have docs: "Map_get (documents ?st') d
      = (if d = docId then Some (fst (createDocument st ins createdBy docId now vid vnow aid anow))
         else Map_get (documents st) d)" for d
    by (simp add: createDocument_unfold Let_def Map_get_set)
  have first: "d_version (fst (createDocument st ins createdBy docId now vid vnow aid anow)) = 1"
    by (simp add: createDocument_unfold Let_def)
  show ?thesis
    unfolding version_log_ok_def
    using ok old first by (auto simp: rows docs version_log_ok_def)
qed

lemma version_log_ok_update:
  assumes ok: "version_log_ok st"
    and fresh: "fresh_draws st (UpdateDocument docId updates updatedBy now vid vnow aid anow)"
  shows "version_log_ok (snd (updateDocument st docId updates updatedBy now vid vnow aid anow))"
proof (cases "Map_get (documents st) docId")
  case None
  then show ?thesis using ok by (simp add: updateDocument_def)
next
  case (Some doc)
  let ?st' = "snd (updateDocument st docId updates updatedBy now vid vnow aid anow)"
  let ?doc' = "the (fst (updateDocument st docId updates updatedBy now vid vnow aid anow))"
  have cur: "1 \<le> d_version doc" "version_numbers st docId = [1..d_version doc]"
    using ok Some by (simp_all add: version_log_ok_def)
  have rows: "version_numbers ?st' d
      = version_numbers st d @ (if d = docId then [d_version doc + 1] else [])" for d
    using fresh
    by (auto simp: version_numbers_def Map_values_def updateDocument_unfold [OF Some] Let_def
        Map_set_fresh)
  have docs: "Map_get (documents ?st') d
      = (if d = docId then Some ?doc' else Map_get (documents st) d)" for d
    by (simp add: updateDocument_unfold [OF Some] Let_def Map_get_set)
  have next_version: "d_version ?doc' = d_version doc + 1"
    by (simp add: updateDocument_unfold [OF Some] Let_def)
  have snoc: "[1..d_version doc] @ [d_version doc + 1] = [1..d_version doc + 1]"
    using cur(1) by (simp add: upto_snoc)
  have positive: "0 \<le> d_version doc"
    using cur(1) by simp
  show ?thesis
    unfolding version_log_ok_def
    using ok cur next_version Some by (auto simp: rows docs version_log_ok_def snoc positive)
qed

lemma version_log_ok_apply:
  assumes "version_log_ok st" "fresh_draws st operation" "is_create_or_update operation"
  shows "version_log_ok (apply_operation st operation)"
proof (cases operation)
  case (CreateUser insertUser uid now)
  then show ?thesis
    using assms(1)
    by (simp add: version_log_ok_def createUser_def Let_def)
next
  case (CreateDocument ins createdBy docId now vid vnow aid anow)
  then show ?thesis
    using assms(1,2) version_log_ok_create by simp
next
  case (UpdateDocument docId updates updatedBy now vid vnow aid anow)
  then show ?thesis
    using assms(1,2) version_log_ok_update by simp
qed (use assms(3) in simp_all)

lemma version_log_ok_run:
  assumes "version_log_ok st" "fresh_run st ops" "list_all is_create_or_update ops"
  shows "version_log_ok (run st ops)"
  using assms
  by (induction ops arbitrary: st) (simp_all add: version_log_ok_apply)

lemma sort_map_key: "sort (map g xs) = map g (sort_key g xs)"
  by (rule properties_for_sort) (simp_all add: sorted_sort_key)

lemma sort_negated_upto: "sort (map uminus [1..n]) = map uminus (rev [1..n])"
proof (rule properties_for_sort)
  show "mset (map uminus (rev [1..n])) = mset (map uminus [1..n])"
    by simp
  show "sorted (map uminus (rev [1..n]))"
    by (simp add: sorted_map sorted_wrt_rev)
qed

lemma sortDesc_of_upto:
  assumes "map key xs = [1..n]"
  shows "map key (sortDesc key xs) = rev [1..n]"
proof -
  have "map (\<lambda>x. - key x) (sort_key (\<lambda>x. - key x) xs) = sort (map (\<lambda>x. - key x) xs)"
    by (rule sort_map_key [symmetric])
  also have "map (\<lambda>x. - key x) xs = map uminus (map key xs)"
    by simp
  finally have "map (\<lambda>x. - key x) (sortDesc key xs) = map uminus (rev [1..n])"
    by (simp only: assms sort_negated_upto sortDesc_def)
  then have "map uminus (map (\<lambda>x. - key x) (sortDesc key xs)) = map uminus (map uminus (rev [1..n]))"
    by simp
  then show ?thesis
    by (simp add: comp_def)
qed

lemma version_rows_contiguous:
  assumes "list_all is_create_or_update ops"
    and "fresh_run MemStorage_new ops"
    and "Map_get (documents (run MemStorage_new ops)) docId = Some doc"
  shows "map v_version (getDocumentVersions (run MemStorage_new ops) docId) = rev [1..d_version doc]"
proof -
  have "version_log_ok (run MemStorage_new ops)"
    using assms(1,2) by (simp add: version_log_ok_run version_log_ok_new)
  then have "version_numbers (run MemStorage_new ops) docId = [1..d_version doc]"
    using assms(3) by (simp add: version_log_ok_def)
  then show ?thesis
    unfolding getDocumentVersions_def version_numbers_def
    by (rule sortDesc_of_upto)
qed

lemma version_after_updates:
  assumes "Map_get (documents st) docId = Some doc"
    and "list_all (is_update_of docId) ups"
  shows "\<exists>doc'. Map_get (documents (run st ups)) docId = Some doc' \<and>
           d_version doc' = d_version doc + int (length ups)"
  using assms
proof (induction ups arbitrary: st doc)
  case Nil
  then show ?case by simp
next
  case (Cons operation ups)
  from Cons.prems(2) obtain updates updatedBy now vid vnow aid anow
    where operation: "operation = UpdateDocument docId updates updatedBy now vid vnow aid anow"
    by (cases operation) auto
  let ?doc' = "the (fst (updateDocument st docId updates updatedBy now vid vnow aid anow))"
  have stored: "Map_get (documents (apply_operation st operation)) docId = Some ?doc'"
    and bumped: "d_version ?doc' = d_version doc + 1"
    by (simp_all add: operation updateDocument_unfold [OF Cons.prems(1)] Let_def Map_get_set)
  from Cons.IH [OF stored] Cons.prems(2)
  obtain doc'' where "Map_get (documents (run (apply_operation st operation) ups)) docId = Some doc''"
    and "d_version doc'' = d_version ?doc' + int (length ups)"
    by auto
  then show ?case
    by (simp add: bumped)
qed

text \<open>
  After \<open>N\<close> updates of a freshly created document its version is \<open>N + 1\<close> and its
  rows are numbered \<open>N + 1, ..., 1\<close>.
\<close>

lemma version_rows_after_updates:
  assumes fresh: "fresh_run MemStorage_new
                    (CreateDocument ins createdBy docId now vid vnow aid anow # ups)"
    and ups: "list_all (is_update_of docId) ups"
  shows "\<exists>doc. Map_get (documents (run MemStorage_new
                   (CreateDocument ins createdBy docId now vid vnow aid anow # ups))) docId
                 = Some doc \<and>
           d_version doc = int (length ups) + 1 \<and>
           map v_version (getDocumentVersions (run MemStorage_new
               (CreateDocument ins createdBy docId now vid vnow aid anow # ups)) docId)
             = rev [1..int (length ups) + 1]"
proof -
  let ?create = "CreateDocument ins createdBy docId now vid vnow aid anow"
  let ?doc = "fst (createDocument MemStorage_new ins createdBy docId now vid vnow aid anow)"
  have created: "Map_get (documents (apply_operation MemStorage_new ?create)) docId = Some ?doc"
    and first: "d_version ?doc = 1"
    by (simp_all add: createDocument_unfold Let_def Map_get_set)
  from version_after_updates [OF created ups] first
  obtain doc where doc: "Map_get (documents (run MemStorage_new (?create # ups))) docId = Some doc"
    and version: "d_version doc = int (length ups) + 1"
    by auto
  have "is_create_or_update operation" if "is_update_of docId operation" for operation
    using that by (cases operation) auto
  then have "list_all is_create_or_update (?create # ups)"
    using ups by (auto simp: list_all_iff)
  from version_rows_contiguous [OF this fresh doc] doc version
  show ?thesis
    by simp
qed

text \<open>
  The row numbered with the current version of a document has the title and content of
  the document, and its summary and tags after \<^verbatim>\<open>|| null\<close> and \<^verbatim>\<open>|| []\<close>.
\<close>

lemma latest_row_ok_new: "latest_row_ok MemStorage_new"
  by (simp add: latest_row_ok_def MemStorage_new_def Map_get_def)

lemma rows_of_users [simp]: "rows_of (st\<lparr>users := u\<rparr>) docId = rows_of st docId"
  by (simp add: rows_of_def)

lemma latest_row_ok_create:
  assumes ok: "latest_row_ok st"
    and fresh: "fresh_draws st (CreateDocument ins createdBy docId now vid vnow aid anow)"
  shows "latest_row_ok (snd (createDocument st ins createdBy docId now vid vnow aid anow))"
proof -
  let ?st' = "snd (createDocument st ins createdBy docId now vid vnow aid anow)"
  let ?doc = "fst (createDocument st ins createdBy docId now vid vnow aid anow)"
  define row where "row = snd (last (documentVersions ?st'))"
  have rows: "rows_of ?st' d = rows_of st d @ (if d = docId then [row] else [])" for d
    using fresh
    by (auto simp: row_def rows_of_def Map_values_def createDocument_unfold Let_def Map_set_fresh)
  have snapshot: "snapshot_of ?doc row"
    using fresh
    by (simp add: row_def createDocument_unfold Let_def Map_set_fresh snapshot_of_def
        orNull_idem orEmptyArray_idem)
  have docs: "Map_get (documents ?st') d
      = (if d = docId then Some ?doc else Map_get (documents st) d)" for d
    by (simp add: createDocument_unfold Let_def Map_get_set)
  show ?thesis
    unfolding latest_row_ok_def
    using ok snapshot by (auto simp: rows docs latest_row_ok_def)
qed

lemma latest_row_ok_update:
  assumes ok: "latest_row_ok st"
    and fresh: "fresh_draws st (UpdateDocument docId updates updatedBy now vid vnow aid anow)"
  shows "latest_row_ok (snd (updateDocument st docId updates updatedBy now vid vnow aid anow))"
proof (cases "Map_get (documents st) docId")
  case None
  then show ?thesis using ok by (simp add: updateDocument_def)
next
  case (Some doc)
  let ?st' = "snd (updateDocument st docId updates updatedBy now vid vnow aid anow)"
  let ?doc' = "the (fst (updateDocument st docId updates updatedBy now vid vnow aid anow))"
  define row where "row = snd (last (documentVersions ?st'))"
  have rows: "rows_of ?st' d = rows_of st d @ (if d = docId then [row] else [])" for d
    using fresh
    by (auto simp: row_def rows_of_def Map_values_def updateDocument_unfold [OF Some] Let_def
        Map_set_fresh)
  have snapshot: "snapshot_of ?doc' row"
    using fresh
    by (simp add: row_def updateDocument_unfold [OF Some] Let_def Map_set_fresh snapshot_of_def)
  have docs: "Map_get (documents ?st') d
      = (if d = docId then Some ?doc' else Map_get (documents st) d)" for d
    by (simp add: updateDocument_unfold [OF Some] Let_def Map_get_set)
  show ?thesis
    unfolding latest_row_ok_def
    using ok snapshot by (auto simp: rows docs latest_row_ok_def)
qed

lemma latest_row_ok_apply:
  assumes "latest_row_ok st" "fresh_draws st operation" "is_create_or_update operation"
  shows "latest_row_ok (apply_operation st operation)"
proof (cases operation)
  case (CreateUser insertUser uid now)
  then show ?thesis
    using assms(1)
    by (simp add: latest_row_ok_def createUser_def Let_def)
next
  case (CreateDocument ins createdBy docId now vid vnow aid anow)
  then show ?thesis
    using assms(1,2) latest_row_ok_create by simp
next
  case (UpdateDocument docId updates updatedBy now vid vnow aid anow)
  then show ?thesis
    using assms(1,2) latest_row_ok_update by simp
qed (use assms(3) in simp_all)

lemma latest_row_ok_run:
  assumes "latest_row_ok st" "fresh_run st ops" "list_all is_create_or_update ops"
  shows "latest_row_ok (run st ops)"
  using assms
  by (induction ops arbitrary: st) (simp_all add: latest_row_ok_apply)

lemma current_row_snapshot:
  assumes ops: "list_all is_create_or_update ops"
    and fresh: "fresh_run MemStorage_new ops"
    and doc: "Map_get (documents (run MemStorage_new ops)) docId = Some doc"
    and row: "version \<in> set (getDocumentVersions (run MemStorage_new ops) docId)"
    and current: "v_version version = d_version doc"
  shows "v_title version = d_title doc \<and> v_content version = d_content doc \<and>
         v_summary version = orNull (Present (d_summary doc)) \<and>
         v_tags version = orEmptyArray (Present (d_tags doc))"
proof -
  let ?st = "run MemStorage_new ops"
  have "version_log_ok ?st"
    using ops fresh by (simp add: version_log_ok_run version_log_ok_new)
  then have numbers: "map v_version (rows_of ?st docId) = [1..d_version doc]"
    using doc by (simp add: version_log_ok_def version_numbers_def rows_of_def)
  have "latest_row_ok ?st"
    using ops fresh by (simp add: latest_row_ok_run latest_row_ok_new)
  then have nonempty: "rows_of ?st docId \<noteq> []"
    and snapshot: "snapshot_of doc (last (rows_of ?st docId))"
    using doc by (simp_all add: latest_row_ok_def)
  have "distinct (map v_version (rows_of ?st docId))"
    by (simp add: numbers)
  then have inj: "inj_on v_version (set (rows_of ?st docId))"
    by (simp add: distinct_map)
  have "version \<in> set (rows_of ?st docId)"
    using row by (simp add: getDocumentVersions_def rows_of_def sortDesc_def)
  moreover have "last (rows_of ?st docId) \<in> set (rows_of ?st docId)"
    using nonempty by simp
  moreover have "v_version version = v_version (last (rows_of ?st docId))"
    using snapshot current by (simp add: snapshot_of_def)
  ultimately have "version = last (rows_of ?st docId)"
    using inj by (auto dest: inj_onD)
  then show ?thesis
    using snapshot by (simp add: snapshot_of_def)
qed

text \<open>
  C1. The claim also says that the row numbered \<open>N\<close> has the summary and tags of the
  document. It has not after an update that leaves the document with an empty summary:
  \<^verbatim>\<open>updateDocument\<close> stores the merged document as it is, while
  \<^verbatim>\<open>createDocumentVersion\<close> turns the empty summary of the snapshot into \<^verbatim>\<open>null\<close>
  (\<^verbatim>\<open>summary || null\<close>). Below, the document has version 2 and the empty string as
  its summary, and its row numbered 2 has the summary \<^verbatim>\<open>null\<close>.
\<close>

theorem version_row_differs_from_document:
  "fresh_run MemStorage_new ex_blank_history \<and>
   list_all is_create_or_update ex_blank_history \<and>
   map d_version (Map_values (documents ex_blanked)) = [2] \<and>
   map d_summary (Map_values (documents ex_blanked)) = [Some []] \<and>
   map v_version (getDocumentVersions ex_blanked ''doc1'') = [2, 1] \<and>
   map v_summary (getDocumentVersions ex_blanked ''doc1'') = [None, None]"
  by code_simp

subsection \<open>updateDocument: the merge and the snapshot\<close>

text \<open>
  What \<^verbatim>\<open>updateDocument\<close> does to a document that exists, with new UUID draws: a key
  that is missing from the update keeps the old value, a key that is present (also with
  \<^verbatim>\<open>null\<close>) replaces it; \<open>updatedAt\<close> is the time of the call and the version grows by
  one; one DocumentVersion row and one Activity of type "updated" are appended. The row
  has the title and content of the merged document, and its summary and tags after
  \<^verbatim>\<open>|| null\<close> and \<^verbatim>\<open>|| []\<close>.
\<close>

lemma updateDocument_effect:
  assumes existing: "Map_get (documents st) docId = Some doc"
    and fresh_version: "Map_get (documentVersions st) vid = None"
    and fresh_activity: "Map_get (activities st) aid = None"
    and uuid_nonempty: "docId \<noteq> []"
  shows "case updateDocument st docId updates updatedBy now vid vnow aid anow of
           (result, st') \<Rightarrow>
             (\<exists>doc'. result = Some doc' \<and>
                d_title doc' = spread (d_title doc) (p_title updates) \<and>
                d_content doc' = spread (d_content doc) (p_content updates) \<and>
                d_summary doc' = spread (d_summary doc) (p_summary updates) \<and>
                d_tags doc' = spread (d_tags doc) (p_tags updates) \<and>
                d_updatedAt doc' = now \<and> d_version doc' = d_version doc + 1 \<and>
                users st' = users st \<and>
                documents st' = Map_set (documents st) docId doc' \<and>
                (\<exists>version. documentVersions st' = documentVersions st @ [(vid, version)] \<and>
                   v_documentId version = docId \<and> v_version version = d_version doc' \<and>
                   v_title version = d_title doc' \<and> v_content version = d_content doc' \<and>
                   v_summary version = orNull (Present (d_summary doc')) \<and>
                   v_tags version = orEmptyArray (Present (d_tags doc')) \<and>
                   v_changeDescription version = Some ''Document updated'') \<and>
                (\<exists>activity. activities st' = activities st @ [(aid, activity)] \<and>
                   a_type activity = ''updated'' \<and> a_documentId activity = Some docId \<and>
                   a_userId activity = updatedBy))"
  using assms
  by (simp add: updateDocument_unfold Let_def Map_set_fresh)

text \<open>The snapshot differs from the merged document in two cases only.\<close>

lemma snapshot_faithful:
  "orNull (Present summary) = summary \<longleftrightarrow> summary \<noteq> Some []"
  "orEmptyArray (Present tags) = tags \<longleftrightarrow> tags \<noteq> None"
  by (cases summary; simp) (cases tags; simp)

text \<open>
  C3. The claim says that the appended row is a snapshot of the merged summary and tags.
  An update with \<^verbatim>\<open>tags: null\<close> leaves the document with \<^verbatim>\<open>null\<close> tags, and the row
  it appends has the empty list (\<^verbatim>\<open>tags || []\<close> in \<^verbatim>\<open>createDocumentVersion\<close>).
\<close>

theorem updateDocument_snapshot_differs:
  "map_option d_tags
     (fst (updateDocument ex_created ''doc1'' ex_null_tags ''userA'' 200 ''ver2'' 201 ''act2'' 202))
     = Some None \<and>
   map_option v_tags
     (Map_get (documentVersions
        (snd (updateDocument ex_created ''doc1'' ex_null_tags ''userA'' 200 ''ver2'' 201 ''act2'' 202)))
        ''ver2'')
     = Some (Some [])"
  by code_simp

end
